theory Spec2Isabelle
  imports Complex_Main "HOL-Library.Word" "HOL-Library.Log_Nat"
begin

unbundle bit_operations_syntax

section \<open>JavaScript values used by script.js\<close>

text \<open>
  A JavaScript string is a sequence of UTF-16 code units; \<open>charCodeAt\<close> reads one unit,
  a number in \<open>[0, 65535]\<close>. String literals of the script are ASCII.
\<close>

type_synonym jsstring = "16 word list"

definition utf16 :: "string \<Rightarrow> jsstring" where
  "utf16 cs = map of_char cs"

text \<open>
  \<open>s.charCodeAt(i)\<close>: the code unit at index \<open>i\<close>, and \<open>NaN\<close> (here \<open>None\<close>) when
  \<open>i\<close> is not an index of \<open>s\<close>.
\<close>

definition charCodeAt :: "jsstring \<Rightarrow> nat \<Rightarrow> int option" where
  "charCodeAt s i = (if i < length s then Some (uint (s ! i)) else None)"

text \<open>
  Numbers. Every number that script.js feeds to a 32-bit operator is an integer, held
  exactly by a double (all of them are below \<open>2^53\<close> in absolute value), so these are
  modelled as \<open>int\<close>. The operators convert their operands as ECMAScript prescribes:
  \<open>ToUint32\<close> reduces modulo \<open>2^32\<close>, \<open>ToInt32\<close> reads the same 32 bits as two's
  complement.
\<close>

definition ToUint32 :: "int \<Rightarrow> int" where
  "ToUint32 x = x mod 2 ^ 32"

definition ToInt32 :: "int \<Rightarrow> int" where
  "ToInt32 x = (let int32bit = x mod 2 ^ 32
                in if int32bit \<ge> 2 ^ 31 then int32bit - 2 ^ 32 else int32bit)"

text \<open>\<open>x << n\<close>: the left operand as Int32, shifted by \<open>n mod 32\<close>, the result an Int32.\<close>

definition js_shl :: "int \<Rightarrow> int \<Rightarrow> int" where
  "js_shl x n = ToInt32 (ToInt32 x * 2 ^ nat (ToUint32 n mod 32))"

text \<open>\<open>x >>> n\<close>: the left operand as Uint32, shifted right by \<open>n mod 32\<close>, zero filled.\<close>

definition js_ushr :: "int \<Rightarrow> int \<Rightarrow> int" where
  "js_ushr x n = ToUint32 x div 2 ^ nat (ToUint32 n mod 32)"

text \<open>\<open>x ^ y\<close>: both operands as Int32, the result the Int32 with the xor of their bits.\<close>

definition js_xor :: "int \<Rightarrow> int \<Rightarrow> int" where
  "js_xor x y = ToInt32 x XOR ToInt32 y"

text \<open>\<open>Math.imul(x, y)\<close>: the product of the operands as Uint32, modulo \<open>2^32\<close>, as an Int32.\<close>

definition Math_imul :: "int \<Rightarrow> int \<Rightarrow> int" where
  "Math_imul x y = ToInt32 ((ToUint32 x * ToUint32 y) mod 2 ^ 32)"

definition Math_floor :: "real \<Rightarrow> int" where
  "Math_floor x = \<lfloor>x\<rfloor>"

text \<open>
  \<open>a / b\<close> and \<open>a % b\<close> with a divisor that is a variable of the script: a zero divisor
  gives \<open>NaN\<close> or an infinity, here \<open>None\<close>. The remainder takes the sign of the dividend.
\<close>

definition js_div :: "real \<Rightarrow> real \<Rightarrow> real option" where
  "js_div a b = (if b = 0 then None else Some (a / b))"

definition js_rem :: "int \<Rightarrow> int \<Rightarrow> int option" where
  "js_rem a b = (if b = 0 then None else Some (sgn a * (\<bar>a\<bar> mod \<bar>b\<bar>)))"

text \<open>
  Numbers that are not integers of the 32-bit operators are binary64 values, and \<open>*\<close>
  and \<open>+\<close> round the exact result to the nearest binary64 value, ties to even. A finite
  binary64 value is an integer multiple of \<open>2^-1074\<close> with at most 53 significant bits:
  \<open>round64\<close> scales by \<open>2^1074\<close>, keeps the 53 leading bits of the integer part and
  rounds at that position. A rounded magnitude of \<open>2^1024\<close> or more is an infinity, here
  \<open>None\<close>.
\<close>

definition round_half_even :: "real \<Rightarrow> int" where
  "round_half_even x =
     (let f = \<lfloor>x\<rfloor>; r = x - real_of_int f
      in if r < 1 / 2 then f else if 1 / 2 < r then f + 1 else if even f then f else f + 1)"

definition round64 :: "real \<Rightarrow> real" where
  "round64 x =
     (let u = \<bar>x\<bar> * 2 ^ 1074;
          k = nat (max 0 (bitlen \<lfloor>u\<rfloor> - 53));
          q = round_half_even (u / 2 ^ k)
      in sgn x * (real_of_int q * 2 ^ k / 2 ^ 1074))"

definition binary64 :: "real \<Rightarrow> real option" where
  "binary64 x = (let y = round64 x in if 2 ^ 1024 \<le> \<bar>y\<bar> then None else Some y)"

definition js_mul :: "real \<Rightarrow> real \<Rightarrow> real option" where
  "js_mul a b = binary64 (a * b)"

definition js_add :: "real \<Rightarrow> real \<Rightarrow> real option" where
  "js_add a b = binary64 (a + b)"

section \<open>What a call can observe: script-level bindings and the clock\<close>

text \<open>
  A function of the script can read the script-level bindings and the clock besides its
  arguments. \<open>ROUND_LENGTH_SECONDS\<close> is a \<open>const\<close> (120 in the script),
  \<open>TOTAL_PLAYERS\<close> is a \<open>let\<close> that \<open>updateTotalPlayers\<close> assigns, and
  \<open>Date_now\<close> is the reading of \<open>Date.now()\<close>, milliseconds since the epoch.
  Every function below takes this environment first.
\<close>

record env =
  ROUND_LENGTH_SECONDS :: int
  TOTAL_PLAYERS :: int
  Date_now :: int

definition script_env :: "int \<Rightarrow> env" where
  "script_env now = \<lparr>ROUND_LENGTH_SECONDS = 120, TOTAL_PLAYERS = 6, Date_now = now\<rparr>"

definition wordList :: "jsstring list" where
  "wordList = map utf16
    [''volcano'', ''library'', ''pizza'', ''dinosaur'', ''astronaut'',
     ''rainbow'', ''penguin'', ''chocolate'', ''submarine'', ''guitar'',
     ''elephant'', ''hurricane'', ''treasure'', ''jungle'', ''wizard'',
     ''pyramid'', ''dolphin'', ''tornado'', ''castle'', ''robot'',
     ''butterfly'', ''mountain'', ''spaceship'', ''dragon'', ''unicorn'',
     ''pirate'', ''hospital'', ''detective'', ''skeleton'', ''flamingo'',
     ''waterfall'', ''superhero'', ''campfire'', ''kangaroo'', ''avalanche'',
     ''lightning'', ''mushroom'', ''scarecrow'', ''telescope'', ''octopus'',
     ''helicopter'', ''goldfish'', ''firework'', ''nightmare'', ''mermaid'',
     ''thunderstorm'', ''crocodile'', ''sunflower'', ''jellyfish'', ''snowman'']"

section \<open>Deterministic pseudorandom number generator\<close>

text \<open>
  The \<open>for\<close> loop of \<open>seedToNumber\<close>, from index \<open>i\<close> with the running \<open>hash\<close>.
  \<open>NaN >>> 0\<close> is 0, which is what the body would give past the end of the string.
\<close>

function seedToNumber_loop :: "jsstring \<Rightarrow> nat \<Rightarrow> int \<Rightarrow> int" where
  "seedToNumber_loop seedString i hash =
     (if i < length seedString
      then seedToNumber_loop seedString (i + 1)
             (case charCodeAt seedString i of
                None \<Rightarrow> 0
              | Some c \<Rightarrow> js_ushr (js_shl hash 5 + hash + c) 0)
      else hash)"
  by pat_completeness auto
termination
  by (relation "measure (\<lambda>(seedString, i, hash). length seedString - i)") auto

declare seedToNumber_loop.simps [simp del]

definition seedToNumber :: "env \<Rightarrow> jsstring \<Rightarrow> int" where
  "seedToNumber e seedString = seedToNumber_loop seedString 0 5381"

text \<open>
  \<open>seededRandom\<close>. The last line divides an integer below \<open>2^32\<close> by \<open>2^32\<close>; a double
  holds that quotient exactly, so the result is modelled as the real number.
\<close>

definition seededRandom :: "env \<Rightarrow> jsstring \<Rightarrow> real" where
  "seededRandom e seedString =
     (let hash = seedToNumber e seedString;
          hash = js_xor hash (js_ushr hash 17);
          hash = js_ushr (Math_imul hash 0xed5ad4bb) 0;
          hash = js_xor hash (js_ushr hash 11);
          hash = js_ushr (Math_imul hash 0xac4c1b51) 0;
          hash = js_xor hash (js_ushr hash 15);
          hash = js_ushr (Math_imul hash 0x31848bab) 0;
          hash = js_xor hash (js_ushr hash 14)
      in real_of_int (js_ushr hash 0) / 4294967296)"

section \<open>Round computation\<close>

text \<open>
  The quotients are taken in the reals and floored. For integers below \<open>2^53\<close> the double
  quotient has the same floor, since a quotient that is not an integer is at least
  \<open>1 / divisor\<close> away from the next one.
\<close>

definition getCurrentRoundNumber :: "env \<Rightarrow> int option" where
  "getCurrentRoundNumber e =
     (let currentUnixSeconds = Math_floor (real_of_int (Date_now e) / 1000)
      in map_option Math_floor
           (js_div (real_of_int currentUnixSeconds) (real_of_int (ROUND_LENGTH_SECONDS e))))"

definition getSecondsUntilNextRound :: "env \<Rightarrow> int option" where
  "getSecondsUntilNextRound e =
     (let currentUnixSeconds = Math_floor (real_of_int (Date_now e) / 1000)
      in case js_rem currentUnixSeconds (ROUND_LENGTH_SECONDS e) of
           None \<Rightarrow> None
         | Some secondsIntoRound \<Rightarrow> Some (ROUND_LENGTH_SECONDS e - secondsIntoRound))"

section \<open>Game logic\<close>

text \<open>
  \<open>getImposterPlayer\<close>: the product with \<open>TOTAL_PLAYERS\<close> and the sum with 1 are
  binary64 operations; \<open>Math.floor\<close> of a binary64 value is exact. \<open>None\<close> is a result
  that is not finite.
\<close>

definition getImposterPlayer :: "env \<Rightarrow> jsstring \<Rightarrow> jsstring \<Rightarrow> real option" where
  "getImposterPlayer e roomCode roundKey =
     (let seed = roomCode @ utf16 ''-imposter-'' @ roundKey
      in case js_mul (seededRandom e seed) (real_of_int (TOTAL_PLAYERS e)) of
           None \<Rightarrow> None
         | Some product \<Rightarrow> js_add 1 (real_of_int (Math_floor product)))"

text \<open>\<open>wordList[wordIndex]\<close> is \<open>undefined\<close> (here \<open>None\<close>) outside the table.\<close>

definition getSecretWord :: "env \<Rightarrow> jsstring \<Rightarrow> jsstring \<Rightarrow> jsstring option" where
  "getSecretWord e roomCode roundKey =
     (let seed = roomCode @ utf16 ''-word-'' @ roundKey;
          wordIndex = Math_floor (seededRandom e seed * real (length wordList))
      in if 0 \<le> wordIndex \<and> wordIndex < int (length wordList)
         then Some (wordList ! nat wordIndex) else None)"

text \<open>
  \<open>updateTotalPlayers\<close> assigns the slider's parsed value to \<open>TOTAL_PLAYERS\<close>; its other
  statements write to the page only.
\<close>

definition updateTotalPlayers :: "env \<Rightarrow> int \<Rightarrow> env" where
  "updateTotalPlayers e sliderValue = e\<lparr>TOTAL_PLAYERS := sliderValue\<rparr>"

section \<open>Reference computations, as the specification words them\<close>

text \<open>
  The djb2 fold: start from 5381 and replace the accumulator by
  \<open>(accumulator * 33 + c) mod 2^32\<close> for each character, in order.
\<close>

definition djb2_reference :: "jsstring \<Rightarrow> int" where
  "djb2_reference s = fold (\<lambda>c accumulator. (accumulator * 33 + uint c) mod 2 ^ 32) s 5381"

text \<open>
  The mixing steps on an unsigned 32-bit value \<open>h\<close>: xor with the right-shifted value,
  multiplication modulo \<open>2^32\<close>, in the order of the specification, and the division
  by \<open>2^32\<close> at the end.
\<close>

definition hashToUnitFloat_reference :: "int \<Rightarrow> real" where
  "hashToUnitFloat_reference h0 =
     (let h = h0 XOR (h0 div 2 ^ 17);
          h = (h * 0xed5ad4bb) mod 2 ^ 32;
          h = h XOR (h div 2 ^ 11);
          h = (h * 0xac4c1b51) mod 2 ^ 32;
          h = h XOR (h div 2 ^ 15);
          h = (h * 0x31848bab) mod 2 ^ 32;
          h = h XOR (h div 2 ^ 14)
      in real_of_int h / 4294967296)"

section \<open>The 32-bit operators\<close>

lemma ToInt32_mod: "ToInt32 x mod 2 ^ 32 = x mod 2 ^ 32"
proof -
  have "(x mod 2 ^ 32 - 2 ^ 32) mod 2 ^ 32 = x mod 2 ^ 32" for x :: int
    by (metis mod_diff_right_eq mod_self diff_zero mod_mod_trivial)
  then show ?thesis
    by (simp add: ToInt32_def Let_def)
qed

lemma ToUint32_ToInt32: "ToUint32 (ToInt32 x) = ToUint32 x"
  by (simp only: ToUint32_def ToInt32_mod)

lemma js_ushr_0: "js_ushr x 0 = x mod 2 ^ 32"
  by (simp add: js_ushr_def ToUint32_def)

lemma js_shl_5_mod: "js_shl h 5 mod 2 ^ 32 = (h * 32) mod 2 ^ 32"
proof -
  have "js_shl h 5 mod 2 ^ 32 = (ToInt32 h * 32) mod 2 ^ 32"
    by (simp add: js_shl_def ToUint32_def ToInt32_mod [simplified])
  also have "\<dots> = (ToInt32 h mod 2 ^ 32 * 32) mod 2 ^ 32"
    by (simp add: mod_mult_left_eq)
  also have "\<dots> = (h * 32) mod 2 ^ 32"
    by (simp only: ToInt32_mod mod_mult_left_eq)
  finally show ?thesis .
qed

section \<open>seedToNumber is the djb2 fold\<close>

text \<open>
  One pass of the loop body: the signed shift, the two additions and the final
  \<open>>>> 0\<close> together multiply by 33, add the code unit and reduce modulo \<open>2^32\<close>.
\<close>

lemma djb2_step: "js_ushr (js_shl h 5 + h + c) 0 = (h * 33 + c) mod 2 ^ 32"
proof -
  have "(js_shl h 5 + (h + c)) mod 2 ^ 32 = (js_shl h 5 mod 2 ^ 32 + (h + c)) mod 2 ^ 32"
    by (simp add: mod_add_left_eq)
  also have "\<dots> = ((h * 32) mod 2 ^ 32 + (h + c)) mod 2 ^ 32"
    by (simp only: js_shl_5_mod)
  also have "\<dots> = (h * 32 + (h + c)) mod 2 ^ 32"
    by (simp add: mod_add_left_eq)
  finally show ?thesis
    by (simp add: js_ushr_0 algebra_simps)
qed

lemma seedToNumber_loop_fold:
  "seedToNumber_loop s i h =
     fold (\<lambda>c accumulator. (accumulator * 33 + uint c) mod 2 ^ 32) (drop i s) h"
proof (induction s i h rule: seedToNumber_loop.induct)
  case (1 seedString i hash)
  show ?case
  proof (cases "i < length seedString")
    case True
    then have d: "drop i seedString = seedString ! i # drop (i + 1) seedString"
      by (simp add: Cons_nth_drop_Suc)
    from True "1.IH" show ?thesis
      by (subst seedToNumber_loop.simps) (simp add: d charCodeAt_def djb2_step)
  next
    case False
    then show ?thesis
      by (subst seedToNumber_loop.simps) simp
  qed
qed

lemma djb2_reference_range: "0 \<le> djb2_reference s \<and> djb2_reference s < 2 ^ 32"
proof -
  have "0 \<le> h \<and> h < 2 ^ 32 \<Longrightarrow>
        0 \<le> fold (\<lambda>c accumulator. (accumulator * 33 + uint c) mod 2 ^ 32) s h \<and>
        fold (\<lambda>c accumulator. (accumulator * 33 + uint c) mod 2 ^ 32) s h < 2 ^ 32" for h :: int
    by (induction s arbitrary: h) simp_all
  from this [of 5381] show ?thesis
    by (simp add: djb2_reference_def)
qed

lemma seedToNumber_djb2: "seedToNumber e s = djb2_reference s"
  by (simp add: seedToNumber_def djb2_reference_def seedToNumber_loop_fold)

lemma seedToNumber_range: "0 \<le> seedToNumber e s \<and> seedToNumber e s < 2 ^ 32"
  using djb2_reference_range [of s] by (simp add: seedToNumber_djb2)

text \<open>
  C1, as stated, gives 177658 for the seed \<open>"A"\<close>. The code returns
  \<open>5381 * 33 + 65 = 177638\<close>.
\<close>

theorem seedToNumber_A_counterexample:
  "seedToNumber (script_env 0) (utf16 ''A'') \<noteq> 177658"
  by (simp add: seedToNumber_djb2 djb2_reference_def utf16_def)

text \<open>
  C1 (amended): for every string \<open>s\<close>, \<open>seedToNumber s\<close> is the djb2 fold from 5381 with
  step \<open>(accumulator * 33 + c) mod 2^32\<close> over the code units of \<open>s\<close>, in order; the
  result lies in \<open>[0, 2^32)\<close>; the empty string gives 5381 and \<open>"A"\<close> gives 177638.
\<close>

theorem seedToNumber_is_djb2:
  "seedToNumber e s = djb2_reference s
   \<and> 0 \<le> seedToNumber e s \<and> seedToNumber e s < 2 ^ 32
   \<and> seedToNumber e [] = 5381
   \<and> seedToNumber e (utf16 ''A'') = 177638"
proof -
  have a: "seedToNumber e s = djb2_reference s"
    by (rule seedToNumber_djb2)
  have b: "seedToNumber e [] = 5381"
    by (simp add: seedToNumber_djb2 djb2_reference_def)
  have c: "seedToNumber e (utf16 ''A'') = 177638"
    by (simp add: seedToNumber_djb2 djb2_reference_def utf16_def)
  from a b c seedToNumber_range [of e s] show ?thesis
    by simp
qed

section \<open>seededRandom is the unsigned mixing sequence\<close>

text \<open>
  \<open>^\<close> returns a signed value and \<open>Math.imul\<close> a signed product; the unsigned reading of
  each is what the unsigned computation gives, and every \<open>>>>\<close> reads its operand unsigned.
\<close>

lemma ToUint32_take_bit: "ToUint32 x = take_bit 32 x"
  by (simp add: ToUint32_def take_bit_eq_mod)

lemma ToUint32_js_xor: "ToUint32 (js_xor a b) = ToUint32 a XOR ToUint32 b"
proof -
  have "take_bit 32 (ToInt32 a XOR ToInt32 b) = take_bit 32 (ToInt32 a) XOR take_bit 32 (ToInt32 b)"
    by (rule take_bit_xor)
  then show ?thesis
    using ToUint32_ToInt32 [of a] ToUint32_ToInt32 [of b]
    by (simp add: js_xor_def ToUint32_take_bit)
qed

lemma ToUint32_id: "0 \<le> x \<Longrightarrow> x < 2 ^ 32 \<Longrightarrow> ToUint32 x = x"
  by (simp add: ToUint32_def)

lemma js_ushr_small:
  assumes "0 \<le> h" "h < 2 ^ 32" "0 \<le> n" "n < 32"
  shows "js_ushr h n = h div 2 ^ nat n"
  using assms by (simp add: js_ushr_def ToUint32_def)

lemma div_pow_range:
  fixes h :: int
  assumes "0 \<le> h" "h < 2 ^ 32"
  shows "0 \<le> h div 2 ^ k \<and> h div 2 ^ k < 2 ^ 32"
proof -
  have "h div 2 ^ k \<le> h"
    using assms(1) by (simp add: div_by_1 zdiv_mono2 [of h 1 "2 ^ k", simplified])
  with assms show ?thesis
    by (simp add: pos_imp_zdiv_nonneg_iff)
qed

lemma xorshift_step:
  assumes "0 \<le> h" "h < 2 ^ 32" "0 \<le> n" "n < 32"
  shows "ToUint32 (js_xor h (js_ushr h n)) = h XOR (h div 2 ^ nat n)"
  using assms div_pow_range [of h "nat n"]
  by (simp add: ToUint32_js_xor js_ushr_small ToUint32_id)

lemma imul_step: "js_ushr (Math_imul s c) 0 = (ToUint32 s * ToUint32 c) mod 2 ^ 32"
  using ToInt32_mod [of "(ToUint32 s * ToUint32 c) mod 2 ^ 32"]
  by (simp add: js_ushr_0 Math_imul_def)

lemma mix_step:
  assumes "0 \<le> h" "h < 2 ^ 32" "0 \<le> n" "n < 32" "0 \<le> c" "c < 2 ^ 32"
  shows "js_ushr (Math_imul (js_xor h (js_ushr h n)) c) 0 = ((h XOR (h div 2 ^ nat n)) * c) mod 2 ^ 32"
  using xorshift_step [OF assms(1-4)] assms(5,6)
  by (simp add: imul_step ToUint32_id)

lemma last_step:
  assumes "0 \<le> h" "h < 2 ^ 32" "0 \<le> n" "n < 32"
  shows "js_ushr (js_xor h (js_ushr h n)) 0 = h XOR (h div 2 ^ nat n)"
  using xorshift_step [OF assms] by (simp add: js_ushr_0 ToUint32_def)

lemma seededRandom_mix:
  assumes "0 \<le> h0" "h0 < 2 ^ 32"
  shows "(let hash = h0;
          hash = js_xor hash (js_ushr hash 17);
          hash = js_ushr (Math_imul hash 0xed5ad4bb) 0;
          hash = js_xor hash (js_ushr hash 11);
          hash = js_ushr (Math_imul hash 0xac4c1b51) 0;
          hash = js_xor hash (js_ushr hash 15);
          hash = js_ushr (Math_imul hash 0x31848bab) 0;
          hash = js_xor hash (js_ushr hash 14)
      in real_of_int (js_ushr hash 0) / 4294967296) = hashToUnitFloat_reference h0"
proof -
  define h2 where "h2 = ((h0 XOR (h0 div 2 ^ 17)) * 0xed5ad4bb) mod 2 ^ 32"
  define h4 where "h4 = ((h2 XOR (h2 div 2 ^ 11)) * 0xac4c1b51) mod 2 ^ 32"
  define h6 where "h6 = ((h4 XOR (h4 div 2 ^ 15)) * 0x31848bab) mod 2 ^ 32"
  have r2: "0 \<le> h2" "h2 < 2 ^ 32" by (simp_all add: h2_def)
  have r4: "0 \<le> h4" "h4 < 2 ^ 32" by (simp_all add: h4_def)
  have r6: "0 \<le> h6" "h6 < 2 ^ 32" by (simp_all add: h6_def)
  have s2: "js_ushr (Math_imul (js_xor h0 (js_ushr h0 17)) 0xed5ad4bb) 0 = h2"
    using mix_step [OF assms, of 17 "0xed5ad4bb"] by (simp add: h2_def)
  have s4: "js_ushr (Math_imul (js_xor h2 (js_ushr h2 11)) 0xac4c1b51) 0 = h4"
    using mix_step [OF r2, of 11 "0xac4c1b51"] by (simp add: h4_def)
  have s6: "js_ushr (Math_imul (js_xor h4 (js_ushr h4 15)) 0x31848bab) 0 = h6"
    using mix_step [OF r4, of 15 "0x31848bab"] by (simp add: h6_def)
  have s7: "js_ushr (js_xor h6 (js_ushr h6 14)) 0 = h6 XOR (h6 div 2 ^ 14)"
    using last_step [OF r6, of 14] by simp
  show ?thesis
    by (simp only: Let_def hashToUnitFloat_reference_def s2 s4 s6 s7 h2_def [symmetric] h4_def [symmetric] h6_def [symmetric])
qed

text \<open>
  C2: for every string \<open>s\<close>, \<open>seededRandom s\<close> is the unsigned 32-bit computation on
  \<open>h = seedToNumber s\<close>: xor with \<open>h >> 17\<close>, multiply by \<open>0xed5ad4bb\<close>, xor with
  \<open>h >> 11\<close>, multiply by \<open>0xac4c1b51\<close>, xor with \<open>h >> 15\<close>, multiply by
  \<open>0x31848bab\<close>, xor with \<open>h >> 14\<close>, every multiply modulo \<open>2^32\<close>, and the result
  divided by 4294967296.
\<close>

theorem seededRandom_is_reference:
  "seededRandom e s = hashToUnitFloat_reference (seedToNumber e s)"
  using seededRandom_mix [of "seedToNumber e s"] seedToNumber_range [of e s]
  by (simp add: seededRandom_def)

section \<open>The unit interval\<close>

lemma seededRandom_form:
  "\<exists>h::int. 0 \<le> h \<and> h < 2 ^ 32 \<and> seededRandom e s = real_of_int h / 4294967296"
proof -
  have "0 \<le> js_ushr x 0 \<and> js_ushr x 0 < 2 ^ 32" for x
    by (simp add: js_ushr_0)
  then show ?thesis
    unfolding seededRandom_def Let_def by blast
qed

lemma seededRandom_range: "0 \<le> seededRandom e s \<and> seededRandom e s < 1"
proof -
  obtain h :: int where h: "0 \<le> h" "h < 2 ^ 32" "seededRandom e s = real_of_int h / 4294967296"
    using seededRandom_form by blast
  from h(2) have "real_of_int h < real_of_int (2 ^ 32)"
    by (simp only: of_int_less_iff)
  with h(1,3) show ?thesis
    by simp
qed

text \<open>
  C3: for every string \<open>s\<close>, \<open>seededRandom s\<close> is an integer of \<open>[0, 2^32 - 1]\<close> divided by
  \<open>2^32\<close>, so \<open>0 \<le> seededRandom s < 1\<close>: it never equals 1.
\<close>

theorem seededRandom_unit_interval:
  "(\<exists>h::int. 0 \<le> h \<and> h \<le> 2 ^ 32 - 1 \<and> seededRandom e s = real_of_int h / 2 ^ 32)
   \<and> 0 \<le> seededRandom e s \<and> seededRandom e s < 1"
proof -
  obtain h :: int where h: "0 \<le> h" "h < 2 ^ 32" "seededRandom e s = real_of_int h / 4294967296"
    using seededRandom_form by blast
  then have "0 \<le> h \<and> h \<le> 2 ^ 32 - 1 \<and> seededRandom e s = real_of_int h / 2 ^ 32"
    by simp
  then show ?thesis
    using seededRandom_range [of e s] by blast
qed

section \<open>Rounding to binary64\<close>

text \<open>
  \<open>round_half_even\<close> is within one half of its argument and fixes the integers.
\<close>

lemma round_half_even_of_int: "round_half_even (real_of_int n) = n"
  by (simp add: round_half_even_def)

lemma round_half_even_error: "\<bar>real_of_int (round_half_even x) - x\<bar> \<le> 1 / 2"
proof -
  have "real_of_int \<lfloor>x\<rfloor> \<le> x" "x < real_of_int \<lfloor>x\<rfloor> + 1"
    by linarith+
  then show ?thesis
    by (auto simp: round_half_even_def Let_def)
qed

lemma round64_pos:
  assumes "0 < x" and "S = 2 ^ 1074" and "k = nat (max 0 (bitlen \<lfloor>x * S\<rfloor> - 53))"
  shows "round64 x = real_of_int (round_half_even (x * S / 2 ^ k)) * 2 ^ k / S"
  using assms(1) by (simp add: round64_def Let_def assms(2,3) del: power_numeral)

lemma round64_scaled:
  assumes "0 < x" and "S = 2 ^ 1074" and "k = nat (max 0 (bitlen \<lfloor>x * S\<rfloor> - 53))"
    and "x * S = real_of_int n * 2 ^ d" and "k = c + d"
  shows "round64 x = real_of_int (round_half_even (real_of_int n / 2 ^ c)) * 2 ^ c * 2 ^ d / S"
proof -
  have "x * S / 2 ^ k = real_of_int n / 2 ^ c"
    by (simp add: assms(4,5) power_add)
  then show ?thesis
    by (simp add: round64_pos [OF assms(1,2,3)] assms(5) power_add)
qed

text \<open>Rounding a dyadic number rounds its integer numerator to 53 significant bits.\<close>

lemma round64_dyadic:
  assumes "0 < m" and "j \<le> 1074"
  shows "round64 (real_of_int m / 2 ^ j)
           = real_of_int (round_half_even (real_of_int m / 2 ^ nat (bitlen m - 53)))
               * 2 ^ nat (bitlen m - 53) / 2 ^ j"
proof -
  let ?x = "real_of_int m / 2 ^ j"
  define S :: real where "S = 2 ^ 1074"
  define k where "k = nat (max 0 (bitlen \<lfloor>?x * S\<rfloor> - 53))"
  from assms(1) have x: "0 < ?x"
    by simp
  have p: "S = 2 ^ (1074 - j) * 2 ^ j"
    using assms(2) by (simp only: S_def power_add [symmetric]) simp
  have u: "?x * S = real_of_int (m * 2 ^ (1074 - j))"
    by (simp add: p)
  have "bitlen \<lfloor>?x * S\<rfloor> = bitlen m + int (1074 - j)"
    by (simp only: u floor_of_int bitlen_pow2 [OF assms(1)])
  then have k: "k = nat (max 0 (bitlen m + int (1074 - j) - 53))"
    by (simp add: k_def)
  show ?thesis
  proof (cases "bitlen m \<le> 53")
    case True
    then have c: "nat (bitlen m - 53) = 0"
      by simp
    from True k have le: "k \<le> 1074 - j"
      by simp
    have e: "(2::int) ^ (1074 - j) = 2 ^ (1074 - j - k) * 2 ^ k"
      using le by (simp add: power_add [symmetric])
    have s: "?x * S = real_of_int (m * 2 ^ (1074 - j - k)) * 2 ^ k"
      unfolding u e by simp
    have z: "k = 0 + k"
      by simp
    have "round64 ?x = real_of_int (m * 2 ^ (1074 - j - k)) * 2 ^ k / S"
      by (simp only: round64_scaled [OF x S_def k_def s z] power_0 div_by_1
          round_half_even_of_int mult_1_right)
    also have "\<dots> = ?x * S / S"
      by (simp only: s)
    also have "\<dots> = ?x"
      by (simp add: S_def)
    finally show ?thesis
      by (simp add: c round_half_even_of_int)
  next
    case False
    then have k': "k = nat (bitlen m - 53) + (1074 - j)"
      using k by simp
    have "?x * S = real_of_int m * 2 ^ (1074 - j)"
      unfolding u by simp
    from round64_scaled [OF x S_def k_def this k']
    show ?thesis
      by (simp add: p)
  qed
qed

lemma round64_zero: "round64 0 = 0"
  by (simp add: round64_def)

lemma round53_error:
  assumes "0 < m"
  shows "\<bar>real_of_int (round_half_even (real_of_int m / 2 ^ nat (bitlen m - 53)))
            * 2 ^ nat (bitlen m - 53) - real_of_int m\<bar> \<le> real_of_int m / 2 ^ 53"
proof (cases "bitlen m \<le> 53")
  case True
  then have "nat (bitlen m - 53) = 0"
    by simp
  with assms show ?thesis
    by (simp add: round_half_even_of_int)
next
  case False
  define c where "c = nat (bitlen m - 53)"
  define q where "q = round_half_even (real_of_int m / 2 ^ c)"
  from False have b: "nat (bitlen m - 1) = c + 52"
    by (simp add: c_def)
  from bitlen_bounds [OF assms] have "2 ^ (c + 52) \<le> m"
    by (simp only: b)
  then have "real_of_int (2 ^ (c + 52)) \<le> real_of_int m"
    by (simp only: of_int_le_iff)
  then have lo: "2 ^ c * 2 ^ 52 \<le> real_of_int m"
    by (simp add: power_add)
  have "\<bar>real_of_int q - real_of_int m / 2 ^ c\<bar> \<le> 1 / 2"
    unfolding q_def by (rule round_half_even_error)
  then have "\<bar>real_of_int q - real_of_int m / 2 ^ c\<bar> * 2 ^ c \<le> 1 / 2 * 2 ^ c"
    by (intro mult_right_mono) simp_all
  moreover have "\<bar>real_of_int q - real_of_int m / 2 ^ c\<bar> * 2 ^ c
                   = \<bar>real_of_int q * 2 ^ c - real_of_int m\<bar>"
  proof -
    have "\<bar>real_of_int q - real_of_int m / 2 ^ c\<bar> * 2 ^ c
            = \<bar>(real_of_int q - real_of_int m / 2 ^ c) * 2 ^ c\<bar>"
      by (simp add: abs_mult)
    also have "(real_of_int q - real_of_int m / 2 ^ c) * 2 ^ c = real_of_int q * 2 ^ c - real_of_int m"
      by (simp add: algebra_simps)
    finally show ?thesis .
  qed
  ultimately have "\<bar>real_of_int q * 2 ^ c - real_of_int m\<bar> \<le> 2 ^ c / 2"
    by simp
  also from lo have "(2::real) ^ c / 2 \<le> real_of_int m / 2 ^ 53"
    by simp
  finally show ?thesis
    by (simp only: q_def c_def)
qed

lemma round64_dyadic_error:
  assumes "0 < m" and "j \<le> 1074"
  shows "\<bar>round64 (real_of_int m / 2 ^ j) - real_of_int m / 2 ^ j\<bar>
           \<le> real_of_int m / 2 ^ j / 2 ^ 53"
proof -
  define v where "v = real_of_int (round_half_even (real_of_int m / 2 ^ nat (bitlen m - 53)))
                        * 2 ^ nat (bitlen m - 53)"
  have r: "round64 (real_of_int m / 2 ^ j) = v / 2 ^ j"
    by (simp only: round64_dyadic [OF assms] v_def)
  have "\<bar>v - real_of_int m\<bar> \<le> real_of_int m / 2 ^ 53"
    unfolding v_def by (rule round53_error [OF assms(1)])
  then have "\<bar>v - real_of_int m\<bar> / 2 ^ j \<le> real_of_int m / 2 ^ 53 / 2 ^ j"
    by (intro divide_right_mono) simp_all
  moreover have "\<bar>v / 2 ^ j - real_of_int m / 2 ^ j\<bar> = \<bar>v - real_of_int m\<bar> / 2 ^ j"
    by (simp add: diff_divide_distrib [symmetric])
  ultimately show ?thesis
    by (simp add: r)
qed

lemma round64_dyadic_exact:
  assumes "0 < m" and "m < 2 ^ 53" and "j \<le> 1074"
  shows "round64 (real_of_int m / 2 ^ j) = real_of_int m / 2 ^ j"
proof -
  from assms(2) have "bitlen m \<le> 53"
    by (simp add: bitlen_le_iff_power)
  then have "nat (bitlen m - 53) = 0"
    by simp
  then show ?thesis
    by (simp add: round64_dyadic [OF assms(1,3)] round_half_even_of_int)
qed

lemma round64_of_int:
  assumes "0 < a"
  shows "\<exists>v::int. round64 (real_of_int a) = real_of_int v
           \<and> \<bar>real_of_int v - real_of_int a\<bar> \<le> real_of_int a / 2 ^ 53
           \<and> (a < 2 ^ 53 \<longrightarrow> v = a)"
proof -
  define v where "v = round_half_even (real_of_int a / 2 ^ nat (bitlen a - 53))
                        * 2 ^ nat (bitlen a - 53)"
  have "round64 (real_of_int a / 2 ^ 0) = real_of_int v"
    by (simp only: round64_dyadic [OF assms, of 0] v_def) simp
  then have r: "round64 (real_of_int a) = real_of_int v"
    by simp
  from round64_dyadic_error [OF assms, of 0] have e: "\<bar>real_of_int v - real_of_int a\<bar> \<le> real_of_int a / 2 ^ 53"
    by (simp add: r)
  have "v = a" if "a < 2 ^ 53"
  proof -
    from round64_dyadic_exact [OF assms that, of 0] have "real_of_int v = real_of_int a"
      by (simp add: r)
    then show ?thesis
      by (simp only: of_int_eq_iff)
  qed
  with r e show ?thesis
    by blast
qed

lemma binary64_Some:
  assumes "round64 x = y" and "\<bar>y\<bar> < 2 ^ 1024"
  shows "binary64 x = Some y"
  using assms by (simp add: binary64_def Let_def del: power_numeral)

lemma binary64_fixed_bound:
  assumes "binary64 x = Some x"
  shows "\<bar>x\<bar> < 2 ^ 1024"
  using assms by (simp add: binary64_def Let_def del: power_numeral split: if_splits)

lemma binary64_one: "binary64 1 = Some 1"
proof -
  have "round64 (real_of_int 1 / 2 ^ 0) = real_of_int 1 / 2 ^ 0"
    by (rule round64_dyadic_exact) simp_all
  then have "round64 1 = 1"
    by simp
  then show ?thesis
    by (rule binary64_Some) simp
qed

lemma imposter_slot_core:
  fixes h N :: int
  assumes "0 \<le> h" and "h < 2 ^ 32" and "1 \<le> N" and "real_of_int N < 2 ^ 1024"
  shows "\<exists>p v. binary64 (real_of_int h / 4294967296 * real_of_int N) = Some p
           \<and> binary64 (1 + real_of_int \<lfloor>p\<rfloor>) = Some (real_of_int v)
           \<and> 1 \<le> v \<and> v \<le> N"
proof (cases "h = 0")
  case True
  have "binary64 0 = Some 0"
    by (rule binary64_Some) (simp_all add: round64_zero)
  with True binary64_one show ?thesis
    using assms(3) by (intro exI [of _ 0] exI [of _ 1]) simp
next
  case False
  define m where "m = h * N"
  define x where "x = real_of_int m / 2 ^ 32"
  define y where "y = round64 x"
  from False assms(1,3) have m: "0 < m"
    by (simp add: m_def)
  from assms(2,3) have "h * N \<le> (2 ^ 32 - 1) * N"
    by (intro mult_right_mono) simp_all
  then have "real_of_int m \<le> real_of_int ((2 ^ 32 - 1) * N)"
    unfolding m_def by (simp only: of_int_le_iff)
  then have xN: "x \<le> real_of_int N * (4294967295 / 4294967296)"
    by (simp add: x_def)
  from m have x0: "0 < x"
    by (simp add: x_def)
  have e: "\<bar>y - x\<bar> \<le> x / 2 ^ 53"
    unfolding y_def x_def by (rule round64_dyadic_error [OF m]) simp
  from e have "y - x \<le> x / 2 ^ 53"
    by (rule abs_le_D1)
  then have yx: "y \<le> x + x / 2 ^ 53"
    by linarith
  from e have "- (y - x) \<le> x / 2 ^ 53"
    by (rule abs_le_D2)
  then have xy: "x - x / 2 ^ 53 \<le> y"
    by linarith
  from xy x0 have y0: "0 \<le> y"
    by simp
  from yx xN assms(3) have yN: "y < real_of_int N"
    by simp
  have prod: "real_of_int h / 4294967296 * real_of_int N = x"
    by (simp add: x_def m_def)
  from y0 yN assms(4) have p: "binary64 x = Some y"
    by (intro binary64_Some) (simp_all add: y_def)
  define a where "a = 1 + \<lfloor>y\<rfloor>"
  from y0 have a1: "1 \<le> a"
    by (simp add: a_def)
  from yN have "\<lfloor>y\<rfloor> < N"
    by (simp only: floor_less_iff)
  then have aN: "a \<le> N"
    by (simp add: a_def)
  have ay: "real_of_int a \<le> 1 + y"
    by (simp add: a_def)
  from a1 have "0 < a"
    by simp
  from round64_of_int [OF this] obtain v :: int where
    v: "round64 (real_of_int a) = real_of_int v"
       "\<bar>real_of_int v - real_of_int a\<bar> \<le> real_of_int a / 2 ^ 53"
       "a < 2 ^ 53 \<longrightarrow> v = a"
    by blast
  have range: "1 \<le> v \<and> v \<le> N"
  proof (cases "a < 2 ^ 53")
    case True
    with v(3) a1 aN show ?thesis
      by simp
  next
    case False
    then have big: "(2::real) ^ 53 \<le> real_of_int a"
      by (metis not_less of_int_le_iff of_int_numeral of_int_power)
    from aN have aN': "real_of_int a \<le> real_of_int N"
      by simp
    from v(2) have "- (real_of_int v - real_of_int a) \<le> real_of_int a / 2 ^ 53"
      by (rule abs_le_D2)
    then have lo: "real_of_int a - real_of_int a / 2 ^ 53 \<le> real_of_int v"
      by linarith
    from v(2) have "real_of_int v - real_of_int a \<le> real_of_int a / 2 ^ 53"
      by (rule abs_le_D1)
    then have hi: "real_of_int v \<le> real_of_int a + real_of_int a / 2 ^ 53"
      by linarith
    from lo big have "1 \<le> real_of_int v"
      by simp
    moreover from hi ay yx xN big aN' have "real_of_int v \<le> real_of_int N"
      by simp
    ultimately show ?thesis
      by simp
  qed
  then have "\<bar>real_of_int v\<bar> < 2 ^ 1024"
    using assms(4) by simp
  with v(1) have "binary64 (real_of_int a) = Some (real_of_int v)"
    by (intro binary64_Some)
  then have "binary64 (1 + real_of_int \<lfloor>y\<rfloor>) = Some (real_of_int v)"
    by (simp add: a_def)
  with p range show ?thesis
    unfolding prod by (intro exI [of _ y] exI [of _ v]) simp
qed

section \<open>The imposter's slot and the word index\<close>

lemma floor_scaled_unit:
  fixes x :: real and n :: int
  assumes "0 \<le> x" "x < 1" "1 \<le> n"
  shows "0 \<le> \<lfloor>x * real_of_int n\<rfloor> \<and> \<lfloor>x * real_of_int n\<rfloor> \<le> n - 1"
proof -
  from assms have "0 \<le> x * real_of_int n"
    by simp
  moreover from assms have "x * real_of_int n < real_of_int n"
    by simp
  ultimately show ?thesis
    by (simp add: floor_less_iff le_floor_iff)
qed

lemma length_wordList: "length wordList = 50"
  by (simp add: wordList_def)

lemma binary64_of_int_exact:
  assumes "0 < a" and "a < 2 ^ 53"
  shows "binary64 (real_of_int a) = Some (real_of_int a)"
proof -
  have "round64 (real_of_int a / 2 ^ 0) = real_of_int a / 2 ^ 0"
    using assms by (intro round64_dyadic_exact) simp_all
  then have r: "round64 (real_of_int a) = real_of_int a"
    by simp
  from assms(2) have "real_of_int a < real_of_int (2 ^ 53)"
    by (simp only: of_int_less_iff)
  with assms(1) have "\<bar>real_of_int a\<bar> < 2 ^ 1024"
    by simp
  with r show ?thesis
    by (rule binary64_Some)
qed

text \<open>
  For a count of at most \<open>2^21\<close> the binary64 product is the exact product: its numerator
  over \<open>2^32\<close> is below \<open>2^53\<close>. This is the case of \<open>wordList.length = 50\<close>, where
  \<open>getSecretWord\<close> takes the product in the reals.
\<close>

lemma js_mul_seededRandom_exact:
  assumes "0 \<le> n" and "n \<le> 2 ^ 21"
  shows "js_mul (seededRandom e s) (real_of_int n) = Some (seededRandom e s * real_of_int n)"
proof -
  let ?x = "seededRandom e s * real_of_int n"
  obtain h :: int where h: "0 \<le> h" "h < 2 ^ 32" "seededRandom e s = real_of_int h / 4294967296"
    using seededRandom_form by blast
  have x: "?x = real_of_int (h * n) / 2 ^ 32"
    by (simp add: h(3))
  from h(1,2) assms have "h * n \<le> (2 ^ 32 - 1) * 2 ^ 21"
    by (intro mult_mono) simp_all
  then have lt: "h * n < 2 ^ 53"
    by simp
  from h(1) assms(1) have nn: "0 \<le> h * n"
    by simp
  have r: "round64 ?x = ?x"
  proof (cases "h * n = 0")
    case True
    then show ?thesis
      by (simp only: x) (simp add: round64_zero)
  next
    case False
    with nn have "0 < h * n"
      by linarith
    from round64_dyadic_exact [OF this lt, of 32] show ?thesis
      by (simp only: x)
  qed
  define w where "w = real_of_int (h * n)"
  define X where "X = ?x"
  from nn have w0: "0 \<le> w"
    unfolding w_def by (simp only: of_int_0_le_iff)
  from lt have "w < real_of_int (2 ^ 53)"
    unfolding w_def by (simp only: of_int_less_iff)
  then have w1: "w < 9007199254740992"
    by simp
  have "X = w / 4294967296"
    unfolding X_def w_def by (simp add: h(3))
  with w0 w1 have "0 \<le> X" and "X < 9007199254740992"
    by simp_all
  then have "\<bar>X\<bar> < 2 ^ 1024"
    by simp
  with r show ?thesis
    unfolding js_mul_def X_def by (rule binary64_Some)
qed

lemma getImposterPlayer_exact:
  assumes "1 \<le> TOTAL_PLAYERS e" and "TOTAL_PLAYERS e \<le> 2 ^ 21"
  shows "getImposterPlayer e roomCode roundKey
           = Some (real_of_int (1 + \<lfloor>seededRandom e (roomCode @ utf16 ''-imposter-'' @ roundKey)
                                      * real_of_int (TOTAL_PLAYERS e)\<rfloor>))"
proof -
  let ?seed = "roomCode @ utf16 ''-imposter-'' @ roundKey"
  let ?N = "TOTAL_PLAYERS e"
  let ?x = "seededRandom e ?seed * real_of_int ?N"
  from assms have p: "js_mul (seededRandom e ?seed) (real_of_int ?N) = Some ?x"
    by (intro js_mul_seededRandom_exact) simp_all
  have x0: "0 \<le> ?x" and xN: "?x < real_of_int ?N"
    using seededRandom_range [of e ?seed] assms(1) by simp_all
  define a where "a = 1 + \<lfloor>?x\<rfloor>"
  from x0 have "0 \<le> \<lfloor>?x\<rfloor>"
    by (simp only: zero_le_floor)
  then have a0: "0 < a"
    unfolding a_def by linarith
  from assms(2) have n: "?N \<le> 2097152"
    by simp
  from xN have "\<lfloor>?x\<rfloor> < ?N"
    by (simp only: floor_less_iff)
  with n have "a < 9007199254740992"
    unfolding a_def by linarith
  then have "a < 2 ^ 53"
    by simp
  from binary64_of_int_exact [OF a0 this]
  have "js_add 1 (real_of_int \<lfloor>?x\<rfloor>) = Some (real_of_int a)"
    by (simp add: a_def js_add_def)
  with p show ?thesis
    by (simp add: getImposterPlayer_def Math_floor_def a_def)
qed

text \<open>
  Above \<open>2^21\<close> the rounding of the product shows: with 467252725 slots the exact product
  for \<open>"PINKFISH"\<close>, round \<open>"0"\<close> is \<open>17573937 - 2^-31\<close>, its binary64 value is 17573937,
  and the slot is 17573938.
\<close>

lemma getImposterPlayer_rounds_product:
  "getImposterPlayer ((script_env 0)\<lparr>TOTAL_PLAYERS := 467252725\<rparr>) (utf16 ''PINKFISH'') (utf16 ''0'')
     = Some 17573938
   \<and> 1 + \<lfloor>seededRandom (script_env 0) (utf16 ''PINKFISH'' @ utf16 ''-imposter-'' @ utf16 ''0'')
           * 467252725\<rfloor> = 17573937"
proof -
  let ?e = "(script_env 0)\<lparr>TOTAL_PLAYERS := 467252725\<rparr>"
  let ?seed = "utf16 ''PINKFISH'' @ utf16 ''-imposter-'' @ utf16 ''0''"
  have "seededRandom (script_env 0) ?seed = 161538886 / 4294967296"
    by code_simp
  then have sr: "seededRandom e ?seed = 161538886 / 4294967296" for e
    by (simp add: seededRandom_def seedToNumber_def)
  have b: "bitlen 75479484676964350 = 57"
    by code_simp
  have "round64 (real_of_int 75479484676964350 / 2 ^ 32)
          = real_of_int (round_half_even (real_of_int 75479484676964350
                / 2 ^ nat (bitlen 75479484676964350 - 53)))
              * 2 ^ nat (bitlen 75479484676964350 - 53) / 2 ^ 32"
    by (rule round64_dyadic) simp_all
  also have "\<dots> = 17573937"
    by (simp add: b round_half_even_def)
  finally have "binary64 (real_of_int 75479484676964350 / 2 ^ 32) = Some 17573937"
    by (rule binary64_Some) simp
  then have p: "js_mul (seededRandom ?e ?seed) (real_of_int (TOTAL_PLAYERS ?e)) = Some 17573937"
    by (simp add: js_mul_def sr)
  have "binary64 (real_of_int 17573938) = Some (real_of_int 17573938)"
    by (rule binary64_of_int_exact) simp_all
  then have "js_add 1 (real_of_int (Math_floor 17573937)) = Some 17573938"
    by (simp add: js_add_def Math_floor_def)
  with p have "getImposterPlayer ?e (utf16 ''PINKFISH'') (utf16 ''0'') = Some 17573938"
    by (simp add: getImposterPlayer_def)
  moreover have "1 + \<lfloor>seededRandom (script_env 0) ?seed * 467252725\<rfloor> = 17573937"
    by (simp add: sr)
  ultimately show ?thesis
    by simp
qed

text \<open>
  C4: for every room code, round key and slot count \<open>TOTAL_PLAYERS \<ge> 1\<close> (an integer
  that is a binary64 value, as the binding holds one), \<open>getImposterPlayer\<close> is
  \<open>1 + floor(seededRandom(roomCode + "-imposter-" + roundKey) * TOTAL_PLAYERS)\<close> as
  JavaScript computes it: the product and the sum are finite, and the value is an
  integer in \<open>[1, TOTAL_PLAYERS]\<close>, with no clamping. For a count of at most \<open>2^21\<close> it
  is \<open>1 + floor\<close> of the exact product.
\<close>

theorem getImposterPlayer_slot:
  assumes "1 \<le> TOTAL_PLAYERS e"
    and "binary64 (real_of_int (TOTAL_PLAYERS e)) = Some (real_of_int (TOTAL_PLAYERS e))"
  shows "\<exists>product v.
           js_mul (seededRandom e (roomCode @ utf16 ''-imposter-'' @ roundKey))
             (real_of_int (TOTAL_PLAYERS e)) = Some product
         \<and> js_add 1 (real_of_int (Math_floor product)) = Some (real_of_int v)
         \<and> getImposterPlayer e roomCode roundKey = Some (real_of_int v)
         \<and> 1 \<le> v \<and> v \<le> TOTAL_PLAYERS e
         \<and> (TOTAL_PLAYERS e \<le> 2 ^ 21 \<longrightarrow>
              v = 1 + \<lfloor>seededRandom e (roomCode @ utf16 ''-imposter-'' @ roundKey)
                        * real_of_int (TOTAL_PLAYERS e)\<rfloor>)"
proof -
  let ?seed = "roomCode @ utf16 ''-imposter-'' @ roundKey"
  obtain h :: int where h: "0 \<le> h" "h < 2 ^ 32" "seededRandom e ?seed = real_of_int h / 4294967296"
    using seededRandom_form by blast
  from binary64_fixed_bound [OF assms(2)] assms(1) have "real_of_int (TOTAL_PLAYERS e) < 2 ^ 1024"
    by simp
  from imposter_slot_core [OF h(1,2) assms(1) this] obtain p v where pv:
    "binary64 (real_of_int h / 4294967296 * real_of_int (TOTAL_PLAYERS e)) = Some p"
    "binary64 (1 + real_of_int \<lfloor>p\<rfloor>) = Some (real_of_int v)"
    "1 \<le> v" "v \<le> TOTAL_PLAYERS e"
    by blast
  then have g: "getImposterPlayer e roomCode roundKey = Some (real_of_int v)"
    by (simp add: getImposterPlayer_def js_mul_def js_add_def Math_floor_def h(3))
  have "v = 1 + \<lfloor>seededRandom e ?seed * real_of_int (TOTAL_PLAYERS e)\<rfloor>"
    if "TOTAL_PLAYERS e \<le> 2 ^ 21"
  proof -
    from getImposterPlayer_exact [OF assms(1) that, of roomCode roundKey] g
    have "real_of_int v = real_of_int (1 + \<lfloor>seededRandom e ?seed * real_of_int (TOTAL_PLAYERS e)\<rfloor>)"
      by simp
    then show ?thesis
      by (simp only: of_int_eq_iff)
  qed
  with pv g show ?thesis
    by (intro exI [of _ p] exI [of _ v])
      (simp add: js_mul_def js_add_def Math_floor_def h(3))
qed

theorem getImposterPlayer_slot_witness:
  "1 \<le> TOTAL_PLAYERS (script_env 0)
   \<and> binary64 (real_of_int (TOTAL_PLAYERS (script_env 0)))
       = Some (real_of_int (TOTAL_PLAYERS (script_env 0)))
   \<and> TOTAL_PLAYERS (script_env 0) \<le> 2 ^ 21
   \<and> getImposterPlayer (script_env 0) (utf16 ''PINKFISH'') (utf16 ''0'') = Some 1"
proof -
  have N: "TOTAL_PLAYERS (script_env 0) = 6"
    by (simp add: script_env_def)
  have h1: "1 \<le> TOTAL_PLAYERS (script_env 0)"
    by (simp add: N)
  have "binary64 (real_of_int 6) = Some (real_of_int 6)"
    by (rule binary64_of_int_exact) simp_all
  then have h2: "binary64 (real_of_int (TOTAL_PLAYERS (script_env 0)))
                   = Some (real_of_int (TOTAL_PLAYERS (script_env 0)))"
    by (simp only: N)
  have h3: "TOTAL_PLAYERS (script_env 0) \<le> 2 ^ 21"
    by (simp add: N)
  have f: "\<lfloor>seededRandom (script_env 0) (utf16 ''PINKFISH'' @ utf16 ''-imposter-'' @ utf16 ''0'')
             * real_of_int (TOTAL_PLAYERS (script_env 0))\<rfloor> = 0"
    by code_simp
  from getImposterPlayer_slot [OF h1 h2, of "utf16 ''PINKFISH''" "utf16 ''0''"] h3
  obtain v :: int where
    "getImposterPlayer (script_env 0) (utf16 ''PINKFISH'') (utf16 ''0'') = Some (real_of_int v)"
    "v = 1 + \<lfloor>seededRandom (script_env 0) (utf16 ''PINKFISH'' @ utf16 ''-imposter-'' @ utf16 ''0'')
               * real_of_int (TOTAL_PLAYERS (script_env 0))\<rfloor>"
    by blast
  then have "getImposterPlayer (script_env 0) (utf16 ''PINKFISH'') (utf16 ''0'') = Some 1"
    by (simp only: f) simp
  with h1 h2 h3 show ?thesis
    by (intro conjI)
qed

text \<open>
  C5: for every room code and round key, the index
  \<open>floor(seededRandom(roomCode + "-word-" + roundKey) * wordList.length)\<close> lies in
  \<open>[0, wordList.length - 1] = [0, 49]\<close>, and \<open>getSecretWord\<close> returns an element of the
  word table, never \<open>undefined\<close>.
\<close>

theorem getSecretWord_in_table:
  "0 \<le> \<lfloor>seededRandom e (roomCode @ utf16 ''-word-'' @ roundKey) * real (length wordList)\<rfloor>
   \<and> \<lfloor>seededRandom e (roomCode @ utf16 ''-word-'' @ roundKey) * real (length wordList)\<rfloor> \<le> 49
   \<and> \<lfloor>seededRandom e (roomCode @ utf16 ''-word-'' @ roundKey) * real (length wordList)\<rfloor>
        \<le> int (length wordList) - 1
   \<and> (\<exists>w. getSecretWord e roomCode roundKey = Some w \<and> w \<in> set wordList)"
proof -
  let ?x = "seededRandom e (roomCode @ utf16 ''-word-'' @ roundKey)"
  let ?i = "\<lfloor>?x * real (length wordList)\<rfloor>"
  have x: "0 \<le> ?x" "?x < 1"
    using seededRandom_range [of e "roomCode @ utf16 ''-word-'' @ roundKey"] by simp_all
  have "0 \<le> \<lfloor>?x * real_of_int 50\<rfloor> \<and> \<lfloor>?x * real_of_int 50\<rfloor> \<le> 50 - 1"
    using x by (intro floor_scaled_unit) simp_all
  then have r: "0 \<le> ?i \<and> ?i \<le> 49"
    by (simp add: length_wordList)
  then have n: "nat ?i < length wordList"
    by (simp only: length_wordList) linarith
  from r have "getSecretWord e roomCode roundKey = Some (wordList ! nat ?i)"
    by (simp add: getSecretWord_def Math_floor_def Let_def length_wordList)
  moreover from n have "wordList ! nat ?i \<in> set wordList"
    by (rule nth_mem)
  ultimately show ?thesis
    using r by (simp add: length_wordList)
qed

section \<open>The round clock\<close>

text \<open>
  A clock reading of \<open>1000 * t + ms\<close> milliseconds with \<open>0 \<le> ms < 1000\<close> is Unix second
  \<open>t\<close>: that is \<open>currentUnixSeconds\<close> in both functions.
\<close>

lemma currentUnixSeconds_eq:
  assumes "0 \<le> ms" "ms < 1000"
  shows "Math_floor (real_of_int (1000 * t + ms) / 1000) = t"
proof -
  have "\<lfloor>real_of_int (1000 * t + ms) / real_of_int 1000\<rfloor> = (1000 * t + ms) div 1000"
    by (rule floor_divide_of_int_eq)
  also from assms have "\<dots> = t"
    by simp
  finally show ?thesis
    by (simp add: Math_floor_def)
qed

lemma getCurrentRoundNumber_at:
  assumes "ROUND_LENGTH_SECONDS e \<noteq> 0" "0 \<le> ms" "ms < 1000"
  shows "getCurrentRoundNumber (e\<lparr>Date_now := 1000 * t + ms\<rparr>)
           = Some (t div ROUND_LENGTH_SECONDS e)"
  using assms(1) currentUnixSeconds_eq [OF assms(2,3), of t]
  by (simp add: getCurrentRoundNumber_def js_div_def Math_floor_def floor_divide_of_int_eq)

lemma getSecondsUntilNextRound_at:
  assumes "0 < ROUND_LENGTH_SECONDS e" "0 \<le> t" "0 \<le> ms" "ms < 1000"
  shows "getSecondsUntilNextRound (e\<lparr>Date_now := 1000 * t + ms\<rparr>)
           = Some (ROUND_LENGTH_SECONDS e - t mod ROUND_LENGTH_SECONDS e)"
proof -
  from assms(1,2) have "js_rem t (ROUND_LENGTH_SECONDS e) = Some (t mod ROUND_LENGTH_SECONDS e)"
    by (cases "t = 0") (simp_all add: js_rem_def)
  with currentUnixSeconds_eq [OF assms(3,4), of t] show ?thesis
    by (simp add: getSecondsUntilNextRound_def)
qed

lemma script_env_at:
  "script_env (1000 * t + ms) = (script_env 0)\<lparr>Date_now := 1000 * t + ms\<rparr>"
  by (simp add: script_env_def)

text \<open>
  C6: for every Unix second \<open>t \<ge> 0\<close> and window length \<open>W > 0\<close>,
  \<open>getSecondsUntilNextRound\<close> returns \<open>W - (t mod W)\<close>, an integer with
  \<open>1 \<le> result \<le> W\<close>; it never returns 0.
\<close>

theorem getSecondsUntilNextRound_countdown:
  assumes "0 < ROUND_LENGTH_SECONDS e" and "0 \<le> t" and "0 \<le> ms" and "ms < 1000"
  shows "getSecondsUntilNextRound (e\<lparr>Date_now := 1000 * t + ms\<rparr>)
           = Some (ROUND_LENGTH_SECONDS e - t mod ROUND_LENGTH_SECONDS e)
         \<and> 1 \<le> ROUND_LENGTH_SECONDS e - t mod ROUND_LENGTH_SECONDS e
         \<and> ROUND_LENGTH_SECONDS e - t mod ROUND_LENGTH_SECONDS e \<le> ROUND_LENGTH_SECONDS e
         \<and> getSecondsUntilNextRound (e\<lparr>Date_now := 1000 * t + ms\<rparr>) \<noteq> Some 0"
proof -
  from assms(1) have "0 \<le> t mod ROUND_LENGTH_SECONDS e"
    and "t mod ROUND_LENGTH_SECONDS e < ROUND_LENGTH_SECONDS e"
    by simp_all
  with getSecondsUntilNextRound_at [OF assms] show ?thesis
    by simp
qed

theorem getSecondsUntilNextRound_countdown_witness:
  "0 < ROUND_LENGTH_SECONDS (script_env 0) \<and> (0::int) \<le> 1700000045
   \<and> (0::int) \<le> 678 \<and> (678::int) < 1000
   \<and> getSecondsUntilNextRound (script_env (1000 * 1700000045 + 678)) = Some 115"
proof -
  have w: "0 < ROUND_LENGTH_SECONDS (script_env 0)"
    by (simp add: script_env_def)
  from getSecondsUntilNextRound_countdown [OF w, of 1700000045 678]
  have "getSecondsUntilNextRound (script_env (1000 * 1700000045 + 678))
          = Some (ROUND_LENGTH_SECONDS (script_env 0) - 1700000045 mod ROUND_LENGTH_SECONDS (script_env 0))"
    by (simp only: script_env_at)
  then show ?thesis
    by (simp add: script_env_def)
qed

text \<open>
  C7: the round number is monotone in time: for every window length \<open>W > 0\<close> and Unix
  seconds \<open>0 \<le> t1 < t2\<close>, \<open>getCurrentRoundNumber\<close> at \<open>t1\<close> is \<open>floor(t1 / W)\<close>, at
  \<open>t2\<close> it is \<open>floor(t2 / W)\<close>, and the first is at most the second.
\<close>

theorem getCurrentRoundNumber_monotone:
  assumes "0 < ROUND_LENGTH_SECONDS e" and "0 \<le> t1" and "t1 < t2"
    and "0 \<le> ms1" and "ms1 < 1000" and "0 \<le> ms2" and "ms2 < 1000"
  shows "getCurrentRoundNumber (e\<lparr>Date_now := 1000 * t1 + ms1\<rparr>)
           = Some (t1 div ROUND_LENGTH_SECONDS e)
         \<and> getCurrentRoundNumber (e\<lparr>Date_now := 1000 * t2 + ms2\<rparr>)
           = Some (t2 div ROUND_LENGTH_SECONDS e)
         \<and> t1 div ROUND_LENGTH_SECONDS e \<le> t2 div ROUND_LENGTH_SECONDS e"
proof -
  from assms(1) have nz: "ROUND_LENGTH_SECONDS e \<noteq> 0"
    by simp
  from assms(1,3) have "t1 div ROUND_LENGTH_SECONDS e \<le> t2 div ROUND_LENGTH_SECONDS e"
    by (simp add: zdiv_mono1)
  with getCurrentRoundNumber_at [OF nz assms(4,5), of t1]
    getCurrentRoundNumber_at [OF nz assms(6,7), of t2]
  show ?thesis
    by simp
qed

theorem getCurrentRoundNumber_monotone_witness:
  "0 < ROUND_LENGTH_SECONDS (script_env 0) \<and> (0::int) \<le> 119 \<and> (119::int) < 120
   \<and> (0::int) \<le> 999 \<and> (999::int) < 1000 \<and> (0::int) \<le> 0 \<and> (0::int) < 1000
   \<and> getCurrentRoundNumber (script_env (1000 * 119 + 999)) = Some 0
   \<and> getCurrentRoundNumber (script_env (1000 * 120 + 0)) = Some 1"
proof -
  have w: "0 < ROUND_LENGTH_SECONDS (script_env 0)"
    by (simp add: script_env_def)
  from getCurrentRoundNumber_monotone [OF w, of 119 120 999 0]
  have "getCurrentRoundNumber (script_env (1000 * 119 + 999))
          = Some (119 div ROUND_LENGTH_SECONDS (script_env 0))
        \<and> getCurrentRoundNumber (script_env (1000 * 120 + 0))
          = Some (120 div ROUND_LENGTH_SECONDS (script_env 0))"
    by (simp only: script_env_at)
  then show ?thesis
    by (simp add: script_env_def)
qed

section \<open>Determinism\<close>

text \<open>
  C8: \<open>seededRandom\<close> is deterministic: two runs on the same seed string, whatever the
  script-level bindings and the clock of each run, give the same value.
\<close>

theorem seededRandom_deterministic: "seededRandom e1 S = seededRandom e2 S"
  by (simp add: seededRandom_def seedToNumber_def)

section \<open>The countdown and the next round\<close>

lemma next_boundary:
  fixes t :: int
  shows "(t + (120 - t mod 120)) mod 120 = 0"
    and "(t + (120 - t mod 120)) div 120 = t div 120 + 1"
    and "(t + (120 - t mod 120) - 1) div 120 = t div 120"
proof -
  have b: "t + (120 - t mod 120) = 120 * (t div 120 + 1)"
    by (simp add: algebra_simps)
  show "(t + (120 - t mod 120)) mod 120 = 0"
    by (simp only: b mod_mult_self1_is_0)
  show "(t + (120 - t mod 120)) div 120 = t div 120 + 1"
    by (simp only: b) simp
  have "t + (120 - t mod 120) - 1 = 120 * (t div 120) + 119"
    by (simp add: algebra_simps)
  then show "(t + (120 - t mod 120) - 1) div 120 = t div 120"
    by simp
qed

text \<open>
  C9: with the window length 120, for every Unix second \<open>t \<ge> 0\<close>, the countdown lands
  exactly on the next round boundary: with \<open>s = getSecondsUntilNextRound(t)\<close> and
  \<open>r = getCurrentRoundNumber(t)\<close>, the round number at time \<open>t + s\<close> is \<open>r + 1\<close>;
  \<open>s\<close> is \<open>120 - t mod 120\<close>, \<open>r\<close> is \<open>floor(t / 120)\<close>, second \<open>t + s\<close> is a multiple
  of 120, and the second before it is still in round \<open>r\<close>.
\<close>

theorem countdown_reaches_next_round:
  assumes "ROUND_LENGTH_SECONDS e = 120" and "0 \<le> t"
    and "0 \<le> ms" and "ms < 1000" and "0 \<le> ms'" and "ms' < 1000"
  shows "\<exists>s r. getSecondsUntilNextRound (e\<lparr>Date_now := 1000 * t + ms\<rparr>) = Some s
           \<and> getCurrentRoundNumber (e\<lparr>Date_now := 1000 * t + ms\<rparr>) = Some r
           \<and> getCurrentRoundNumber (e\<lparr>Date_now := 1000 * (t + s) + ms'\<rparr>) = Some (r + 1)
           \<and> s = 120 - t mod 120
           \<and> r = t div 120
           \<and> (t + s) mod 120 = 0
           \<and> getCurrentRoundNumber (e\<lparr>Date_now := 1000 * (t + s - 1) + ms'\<rparr>) = Some r"
proof -
  from assms(1) have pos: "0 < ROUND_LENGTH_SECONDS e" and nz: "ROUND_LENGTH_SECONDS e \<noteq> 0"
    by simp_all
  have s: "getSecondsUntilNextRound (e\<lparr>Date_now := 1000 * t + ms\<rparr>) = Some (120 - t mod 120)"
    using getSecondsUntilNextRound_at [OF pos assms(2,3,4)] by (simp add: assms(1))
  have r: "getCurrentRoundNumber (e\<lparr>Date_now := 1000 * t + ms\<rparr>) = Some (t div 120)"
    using getCurrentRoundNumber_at [OF nz assms(3,4), of t] by (simp add: assms(1))
  have n: "getCurrentRoundNumber (e\<lparr>Date_now := 1000 * (t + (120 - t mod 120)) + ms'\<rparr>)
             = Some (t div 120 + 1)"
    using getCurrentRoundNumber_at [OF nz assms(5,6), of "t + (120 - t mod 120)"]
    by (simp only: assms(1) next_boundary(2))
  have b: "getCurrentRoundNumber (e\<lparr>Date_now := 1000 * (t + (120 - t mod 120) - 1) + ms'\<rparr>)
             = Some (t div 120)"
    using getCurrentRoundNumber_at [OF nz assms(5,6), of "t + (120 - t mod 120) - 1"]
    by (simp only: assms(1) next_boundary(3))
  from s r n b next_boundary(1) [of t] show ?thesis
    by (intro exI [of _ "120 - t mod 120"] exI [of _ "t div 120"] conjI refl)
qed

theorem countdown_reaches_next_round_witness:
  "ROUND_LENGTH_SECONDS (script_env 0) = 120 \<and> (0::int) \<le> 1700000045
   \<and> (0::int) \<le> 678 \<and> (678::int) < 1000 \<and> (0::int) \<le> 12 \<and> (12::int) < 1000
   \<and> getSecondsUntilNextRound (script_env (1000 * 1700000045 + 678)) = Some 115
   \<and> getCurrentRoundNumber (script_env (1000 * 1700000045 + 678)) = Some 14166667
   \<and> getCurrentRoundNumber (script_env (1000 * (1700000045 + 115) + 12)) = Some 14166668
   \<and> ((1700000045::int) + 115) mod 120 = 0
   \<and> getCurrentRoundNumber (script_env (1000 * (1700000045 + 115 - 1) + 12)) = Some 14166667"
proof -
  have w: "ROUND_LENGTH_SECONDS (script_env 0) = 120"
    by (simp add: script_env_def)
  from countdown_reaches_next_round [OF w, of 1700000045 678 12]
  obtain s r where
    "getSecondsUntilNextRound ((script_env 0)\<lparr>Date_now := 1000 * 1700000045 + 678\<rparr>) = Some s"
    "getCurrentRoundNumber ((script_env 0)\<lparr>Date_now := 1000 * 1700000045 + 678\<rparr>) = Some r"
    "getCurrentRoundNumber ((script_env 0)\<lparr>Date_now := 1000 * (1700000045 + s) + 12\<rparr>) = Some (r + 1)"
    "s = 120 - 1700000045 mod 120" "r = 1700000045 div 120"
    "getCurrentRoundNumber ((script_env 0)\<lparr>Date_now := 1000 * (1700000045 + s - 1) + 12\<rparr>) = Some r"
    by auto
  then have
    "getSecondsUntilNextRound (script_env (1000 * 1700000045 + 678)) = Some 115"
    "getCurrentRoundNumber (script_env (1000 * 1700000045 + 678)) = Some 14166667"
    "getCurrentRoundNumber (script_env (1000 * (1700000045 + 115) + 12)) = Some 14166668"
    "getCurrentRoundNumber (script_env (1000 * (1700000045 + 115 - 1) + 12)) = Some 14166667"
    by (simp_all add: script_env_def)
  with w show ?thesis
    by simp
qed

section \<open>Word selection and the player count\<close>

text \<open>
  C10: \<open>getSecretWord\<close> returns the same word whatever the value of \<open>TOTAL_PLAYERS\<close>:
  two runs that differ in \<open>TOTAL_PLAYERS\<close> only give identical results, and so does a
  run after \<open>updateTotalPlayers\<close>.
\<close>

theorem getSecretWord_ignores_TOTAL_PLAYERS:
  "getSecretWord (e\<lparr>TOTAL_PLAYERS := n1\<rparr>) roomCode roundKey
     = getSecretWord (e\<lparr>TOTAL_PLAYERS := n2\<rparr>) roomCode roundKey
   \<and> getSecretWord (updateTotalPlayers e n1) roomCode roundKey
     = getSecretWord e roomCode roundKey"
  by (simp add: getSecretWord_def seededRandom_def seedToNumber_def)

end
